theory Spec2Isabelle
  imports Main "HOL-Library.Char_ord" "HOL-Library.List_Lexorder"
begin

section \<open>Type descriptions\<close>

text \<open>
  The compilers walk values of Go's \<^verbatim>\<open>reflect.Type\<close>. They read a type only through
  \<^verbatim>\<open>Kind()\<close>, \<^verbatim>\<open>Elem()\<close>, \<^verbatim>\<open>Name()\<close>, \<^verbatim>\<open>NumField()\<close>, \<^verbatim>\<open>Field(i)\<close> and
  \<^verbatim>\<open>reflect.PtrTo(t).Implements(jsonUnmarshaler)\<close>, so a type is modelled by what these
  return. The two switches of the source distinguish the kinds pointer, slice, array and
  struct; every other kind (bool, the integers, string, map, chan, func, interface, ...)
  falls in their default branch and is one constructor here, carrying \<^verbatim>\<open>t.Name()\<close>.
  The datatype is inductive: its values are the type descriptions that are finite trees.
  A Go type that refers to itself (\<^verbatim>\<open>type T struct { Next *T }\<close>) is not one of them;
  the section on the table of types below models those as well.
\<close>

datatype reflect_Kind = Ptr | Slice | Array | Struct | OtherKind

datatype rtype =
    PtrTo rtype \<comment> \<open>\<^verbatim>\<open>*T\<close>; the argument is \<^verbatim>\<open>t.Elem()\<close>\<close>
  | SliceOf rtype \<comment> \<open>\<^verbatim>\<open>[]T\<close>\<close>
  | ArrayOf nat rtype \<comment> \<open>\<^verbatim>\<open>[n]T\<close>\<close>
  | StructOf string bool "StructField list"
      \<comment> \<open>\<^verbatim>\<open>t.Name()\<close>, \<^verbatim>\<open>reflect.PtrTo(t).Implements(jsonUnmarshaler)\<close>, the fields in
         declaration order\<close>
  | Basic string \<comment> \<open>a type of any other kind, with its \<^verbatim>\<open>t.Name()\<close>\<close>
and StructField =
    StructField string rtype "string option" bool
      \<comment> \<open>\<^verbatim>\<open>f.Name\<close>, \<^verbatim>\<open>f.Type\<close>, the result of \<^verbatim>\<open>f.Tag.Lookup("graphql")\<close>
         (\<open>None\<close> when \<^verbatim>\<open>ok\<close> is false), \<^verbatim>\<open>f.Anonymous\<close>\<close>

fun Kind :: "rtype \<Rightarrow> reflect_Kind" where
  "Kind (PtrTo t) = Ptr"
| "Kind (SliceOf t) = Slice"
| "Kind (ArrayOf n t) = Array"
| "Kind (StructOf name unm fs) = Struct"
| "Kind (Basic name) = OtherKind"

text \<open>
  An \<^verbatim>\<open>interface{}\<close> value is used only through \<^verbatim>\<open>reflect.TypeOf\<close>, which returns
  the nil \<^verbatim>\<open>reflect.Type\<close> for the nil interface value; calling \<^verbatim>\<open>Kind()\<close> on that is a
  nil dereference, a run-time panic. A value is modelled by its dynamic type, \<open>None\<close> for
  nil.
\<close>

type_synonym iface = "rtype option"

datatype panic = NilPointerDereference

text \<open>
  A Go map from variable names to values, as the list of its entries in the order in
  which \<^verbatim>\<open>range\<close> happens to enumerate them. The keys of a map are distinct.
\<close>

type_synonym variables = "(string \<times> iface) list"

definition distinct_keys :: "variables \<Rightarrow> bool" where
  "distinct_keys vars = distinct (map fst vars)"

section \<open>The argument compiler\<close>

text \<open>
  \<^verbatim>\<open>writeArgumentType(w, t, value)\<close>; the writer \<open>w\<close> is the buffer written so far and the
  result is the buffer afterwards.
\<close>

fun writeArgumentType :: "string \<Rightarrow> rtype \<Rightarrow> bool \<Rightarrow> string" where
  "writeArgumentType w (PtrTo t) val = writeArgumentType w t False"
| "writeArgumentType w (SliceOf t) val =
     (let w = writeArgumentType (w @ ''['') t True @ '']''
      in if val then w @ ''!'' else w)"
| "writeArgumentType w (ArrayOf n t) val =
     (let w = writeArgumentType (w @ ''['') t True @ '']''
      in if val then w @ ''!'' else w)"
| "writeArgumentType w (StructOf name unm fs) val =
     (let name = (if name = ''string'' then ''ID'' else name);
          w = w @ name
      in if val then w @ ''!'' else w)"
| "writeArgumentType w (Basic name) val =
     (let name = (if name = ''string'' then ''ID'' else name);
          w = w @ name
      in if val then w @ ''!'' else w)"

text \<open>\<^verbatim>\<open>variables[k]\<close>: the zero value, the nil interface, when the key is missing.\<close>

definition index_map :: "variables \<Rightarrow> string \<Rightarrow> iface" where
  "index_map vars k = (case map_of vars k of None \<Rightarrow> None | Some v \<Rightarrow> v)"

text \<open>
  The second loop of \<^verbatim>\<open>queryArguments\<close>, over the sorted keys. The call
  \<^verbatim>\<open>writeArgumentType(&buf, reflect.TypeOf(variables[k]), true)\<close> panics at its first
  line when the type is nil.
\<close>

fun queryArguments_loop :: "variables \<Rightarrow> string \<Rightarrow> string list \<Rightarrow> panic + string" where
  "queryArguments_loop vars buf [] = Inr buf"
| "queryArguments_loop vars buf (k # keys) =
     (let buf = buf @ ''$'';
          buf = buf @ k;
          buf = buf @ '':''
      in case index_map vars k of
           None \<Rightarrow> Inl NilPointerDereference
         | Some t \<Rightarrow> queryArguments_loop vars (writeArgumentType buf t True) keys)"

definition queryArguments :: "variables \<Rightarrow> panic + string" where
  "queryArguments vars =
     (let keys = map fst vars;
          keys = sort keys
      in queryArguments_loop vars [] keys)"

text \<open>
  What one turn of that loop writes for the key \<open>k\<close> when its value is not nil:
  \<open>$\<close>, the name, \<open>:\<close> and the type token.
\<close>

definition variable_declaration :: "variables \<Rightarrow> string \<Rightarrow> string" where
  "variable_declaration vars k =
     (case index_map vars k of
        Some t \<Rightarrow> ''$'' @ k @ '':'' @ writeArgumentType [] t True
      | None \<Rightarrow> [])"

section \<open>The selection compiler\<close>

text \<open>
  \<^verbatim>\<open>writeQuery(w, t, inline)\<close>, with the \<^verbatim>\<open>for\<close> loop over the fields as a second
  function: \<open>i\<close> is the loop index and the list holds the fields from index \<open>i\<close> on.
  The package \<^verbatim>\<open>ident\<close> is not among the sources, so the composition
  \<^verbatim>\<open>ident.ParseMixedCaps(s).ToLowerCamelCase()\<close> is the parameter \<open>lcc\<close>.
\<close>

fun writeQuery :: "(string \<Rightarrow> string) \<Rightarrow> string \<Rightarrow> rtype \<Rightarrow> bool \<Rightarrow> string"
and writeQuery_loop :: "(string \<Rightarrow> string) \<Rightarrow> string \<Rightarrow> nat \<Rightarrow> StructField list \<Rightarrow> string" where
  "writeQuery lcc w (PtrTo t) inline = writeQuery lcc w t False"
| "writeQuery lcc w (SliceOf t) inline = writeQuery lcc w t False"
| "writeQuery lcc w (StructOf name unm fs) inline =
     (if unm then w
      else
        let w = (if \<not> inline then w @ ''{'' else w);
            w = writeQuery_loop lcc w 0 fs
        in if \<not> inline then w @ ''}'' else w)"
| "writeQuery lcc w (ArrayOf n t) inline = w"
| "writeQuery lcc w (Basic name) inline = w"
| "writeQuery_loop lcc w i [] = w"
| "writeQuery_loop lcc w i (StructField name t tag anonymous # fs) =
     (let w = (if i \<noteq> 0 then w @ '','' else w);
          ok = (tag \<noteq> None);
          inlineField = (anonymous \<and> \<not> ok);
          w = (if \<not> inlineField
               then (case tag of Some v \<Rightarrow> w @ v | None \<Rightarrow> w @ lcc name)
               else w);
          w = writeQuery lcc w t inlineField
      in writeQuery_loop lcc w (i + 1) fs)"

definition query :: "(string \<Rightarrow> string) \<Rightarrow> iface \<Rightarrow> panic + string" where
  "query lcc v =
     (case v of
        None \<Rightarrow> Inl NilPointerDereference
      | Some t \<Rightarrow> Inr (writeQuery lcc [] t False))"

section \<open>The compilers on the table of types\<close>

text \<open>
  A \<^verbatim>\<open>reflect.Type\<close> is a reference to a type of the running program, and \<^verbatim>\<open>Elem()\<close>
  and \<^verbatim>\<open>Field(i).Type\<close> return such references: a type may refer to itself
  (\<^verbatim>\<open>type RecList []RecList\<close>, \<^verbatim>\<open>type Rec struct { Next *Rec }\<close>). Here a type is a
  number, and the table \<open>types\<close> gives what each type is, with numbers where the tree
  above has subtrees.
\<close>

datatype gfield = GField string nat "string option" bool

datatype gtype =
    GPtr nat
  | GSlice nat
  | GArray nat nat
  | GStruct string bool "gfield list"
  | GBasic string

text \<open>
  \<^verbatim>\<open>writeArgumentType\<close> on the table. Nothing bounds the recursion of the source, so the
  model counts it: \<open>depth\<close> is the number of nested calls the stack has room for, and
  \<open>None\<close> says that the call did not return within it. A call that returns \<open>None\<close> for
  every depth is a call that never returns (in Go, the stack overflow).
\<close>

fun writeArgumentType_run :: "nat \<Rightarrow> (nat \<Rightarrow> gtype) \<Rightarrow> string \<Rightarrow> nat \<Rightarrow> bool \<Rightarrow> string option" where
  "writeArgumentType_run 0 types w t val = None"
| "writeArgumentType_run (Suc depth) types w t val =
     (case types t of
        GPtr e \<Rightarrow> writeArgumentType_run depth types w e False
      | GSlice e \<Rightarrow>
          (case writeArgumentType_run depth types (w @ ''['') e True of
             None \<Rightarrow> None
           | Some w \<Rightarrow> (let w = w @ '']'' in Some (if val then w @ ''!'' else w)))
      | GArray n e \<Rightarrow>
          (case writeArgumentType_run depth types (w @ ''['') e True of
             None \<Rightarrow> None
           | Some w \<Rightarrow> (let w = w @ '']'' in Some (if val then w @ ''!'' else w)))
      | GStruct name unm fs \<Rightarrow>
          (let name = (if name = ''string'' then ''ID'' else name);
               w = w @ name
           in Some (if val then w @ ''!'' else w))
      | GBasic name \<Rightarrow>
          (let name = (if name = ''string'' then ''ID'' else name);
               w = w @ name
           in Some (if val then w @ ''!'' else w)))"

text \<open>\<^verbatim>\<open>writeQuery\<close> and its loop over the fields on the table, in the same way.\<close>

fun writeQuery_run :: "nat \<Rightarrow> (string \<Rightarrow> string) \<Rightarrow> (nat \<Rightarrow> gtype) \<Rightarrow> string \<Rightarrow> nat \<Rightarrow> bool \<Rightarrow> string option"
and writeQuery_loop_run :: "nat \<Rightarrow> (string \<Rightarrow> string) \<Rightarrow> (nat \<Rightarrow> gtype) \<Rightarrow> string \<Rightarrow> nat \<Rightarrow> gfield list \<Rightarrow> string option" where
  "writeQuery_run 0 lcc types w t inline = None"
| "writeQuery_run (Suc depth) lcc types w t inline =
     (case types t of
        GPtr e \<Rightarrow> writeQuery_run depth lcc types w e False
      | GSlice e \<Rightarrow> writeQuery_run depth lcc types w e False
      | GStruct name unm fs \<Rightarrow>
          (if unm then Some w
           else
             let w = (if \<not> inline then w @ ''{'' else w)
             in case writeQuery_loop_run depth lcc types w 0 fs of
                  None \<Rightarrow> None
                | Some w \<Rightarrow> Some (if \<not> inline then w @ ''}'' else w))
      | GArray n e \<Rightarrow> Some w
      | GBasic name \<Rightarrow> Some w)"
| "writeQuery_loop_run 0 lcc types w i fs = None"
| "writeQuery_loop_run (Suc depth) lcc types w i [] = Some w"
| "writeQuery_loop_run (Suc depth) lcc types w i (GField name t tag anonymous # fs) =
     (let w = (if i \<noteq> 0 then w @ '','' else w);
          ok = (tag \<noteq> None);
          inlineField = (anonymous \<and> \<not> ok);
          w = (if \<not> inlineField
               then (case tag of Some v \<Rightarrow> w @ v | None \<Rightarrow> w @ lcc name)
               else w)
      in case writeQuery_run depth lcc types w t inlineField of
           None \<Rightarrow> None
         | Some w \<Rightarrow> writeQuery_loop_run depth lcc types w (i + 1) fs)"

text \<open>
  The type \<open>i\<close> of the table is the finite type description \<open>t\<close>: following the
  references from \<open>i\<close> unfolds the table into the tree \<open>t\<close>. A type that refers to
  itself unfolds into no tree.
\<close>

inductive unfolds :: "(nat \<Rightarrow> gtype) \<Rightarrow> nat \<Rightarrow> rtype \<Rightarrow> bool"
and unfolds_fields :: "(nat \<Rightarrow> gtype) \<Rightarrow> gfield list \<Rightarrow> StructField list \<Rightarrow> bool" where
  unfolds_Ptr: "types i = GPtr e \<Longrightarrow> unfolds types e t \<Longrightarrow> unfolds types i (PtrTo t)"
| unfolds_Slice: "types i = GSlice e \<Longrightarrow> unfolds types e t \<Longrightarrow> unfolds types i (SliceOf t)"
| unfolds_Array: "types i = GArray n e \<Longrightarrow> unfolds types e t \<Longrightarrow> unfolds types i (ArrayOf n t)"
| unfolds_Struct: "types i = GStruct name unm gfs \<Longrightarrow> unfolds_fields types gfs fs \<Longrightarrow>
     unfolds types i (StructOf name unm fs)"
| unfolds_Basic: "types i = GBasic name \<Longrightarrow> unfolds types i (Basic name)"
| unfolds_Nil: "unfolds_fields types [] []"
| unfolds_Cons: "unfolds types e t \<Longrightarrow> unfolds_fields types gfs fs \<Longrightarrow>
     unfolds_fields types (GField name e tag anonymous # gfs) (StructField name t tag anonymous # fs)"

section \<open>Operation assembly\<close>

text \<open>
  The structs \<^verbatim>\<open>Query\<close> and \<^verbatim>\<open>Mutation\<close> of the variant with operation names. The field
  \<^verbatim>\<open>RequestHandler\<close> is read only by \<^verbatim>\<open>ModifyRequest\<close> and is left out.
\<close>

record Query =
  Name :: string
  Data :: iface
  Vars :: variables

record Mutation =
  Name :: string
  Data :: iface
  Vars :: variables

text \<open>
  \<^verbatim>\<open>(op *Query) Query()\<close>; \<open>str\<close> is the \<^verbatim>\<open>strings.Builder\<close>. A panic of
  \<^verbatim>\<open>queryArguments\<close> or of \<^verbatim>\<open>query\<close> ends the method.
\<close>

definition Query_Query :: "(string \<Rightarrow> string) \<Rightarrow> Query \<Rightarrow> panic + string" where
  "Query_Query lcc q =
     (let str = [];
          str = (if Query.Name q \<noteq> [] then (str @ ''query '') @ Query.Name q else str)
      in case (if length (Query.Vars q) > 0
               then (let str = (if length str = 0 then str @ ''query'' else str);
                         str = str @ ''(''
                     in case queryArguments (Query.Vars q) of
                          Inl e \<Rightarrow> Inl e
                        | Inr args \<Rightarrow> Inr ((str @ args) @ '')''))
               else Inr str) of
           Inl e \<Rightarrow> Inl e
         | Inr str \<Rightarrow>
             (case query lcc (Query.Data q) of
                Inl e \<Rightarrow> Inl e
              | Inr sel \<Rightarrow> Inr (str @ sel)))"

text \<open>\<^verbatim>\<open>(op *Mutation) Query()\<close>.\<close>

definition Mutation_Query :: "(string \<Rightarrow> string) \<Rightarrow> Mutation \<Rightarrow> panic + string" where
  "Mutation_Query lcc m =
     (let str = [];
          str = str @ ''mutation'';
          str = (if Mutation.Name m \<noteq> [] then (str @ '' '') @ Mutation.Name m else str)
      in case (if length (Mutation.Vars m) > 0
               then (let str = str @ ''(''
                     in case queryArguments (Mutation.Vars m) of
                          Inl e \<Rightarrow> Inl e
                        | Inr args \<Rightarrow> Inr ((str @ args) @ '')''))
               else Inr str) of
           Inl e \<Rightarrow> Inl e
         | Inr str \<Rightarrow>
             (case query lcc (Mutation.Data m) of
                Inl e \<Rightarrow> Inl e
              | Inr sel \<Rightarrow> Inr (str @ sel)))"

text \<open>
  The variant without operation names (\<^verbatim>\<open>query.go\<close>). Its \<^verbatim>\<open>queryArguments\<close>,
  \<^verbatim>\<open>writeArgumentType\<close>, \<^verbatim>\<open>query\<close> and \<^verbatim>\<open>writeQuery\<close> are line for line those above;
  \<^verbatim>\<open>constructQuery\<close> and \<^verbatim>\<open>constructMutation\<close> compile the selection first.
\<close>

definition constructQuery :: "(string \<Rightarrow> string) \<Rightarrow> iface \<Rightarrow> variables \<Rightarrow> panic + string" where
  "constructQuery lcc v vars =
     (case query lcc v of
        Inl e \<Rightarrow> Inl e
      | Inr sel \<Rightarrow>
          if length vars > 0
          then (case queryArguments vars of
                  Inl e \<Rightarrow> Inl e
                | Inr args \<Rightarrow> Inr (((''query('' @ args) @ '')'') @ sel))
          else Inr sel)"

definition constructMutation :: "(string \<Rightarrow> string) \<Rightarrow> iface \<Rightarrow> variables \<Rightarrow> panic + string" where
  "constructMutation lcc v vars =
     (case query lcc v of
        Inl e \<Rightarrow> Inl e
      | Inr sel \<Rightarrow>
          if length vars > 0
          then (case queryArguments vars of
                  Inl e \<Rightarrow> Inl e
                | Inr args \<Rightarrow> Inr (((''mutation('' @ args) @ '')'') @ sel))
          else Inr (''mutation'' @ sel))"

section \<open>The naming normalizer\<close>

text \<open>
  The package \<^verbatim>\<open>ident\<close> with \<^verbatim>\<open>ParseMixedCaps\<close> and \<^verbatim>\<open>ToLowerCamelCase\<close> is not
  among the sources, and the compilers above take their composition as a parameter. The
  definitions of this section follow section 4.4 of the spec instead; they serve as the
  concrete normalizer of the examples.
\<close>

text \<open>
  Modelled from the spec: the uppercase letters of \<^verbatim>\<open>ident\<close> (absent), taken as ASCII.
\<close>

definition isUpper :: "char \<Rightarrow> bool" where
  "isUpper c = (65 \<le> (of_char c :: nat) \<and> (of_char c :: nat) \<le> 90)"

text \<open>
  Modelled from the spec: the lowercase letters of \<^verbatim>\<open>ident\<close> (absent), taken as ASCII.
\<close>

definition isLower :: "char \<Rightarrow> bool" where
  "isLower c = (97 \<le> (of_char c :: nat) \<and> (of_char c :: nat) \<le> 122)"

text \<open>
  Modelled from the spec: lowercasing a letter, for "the leading word is lowercased";
  \<^verbatim>\<open>ident\<close> is absent.
\<close>

definition toLower :: "char \<Rightarrow> char" where
  "toLower c = (if isUpper c then char_of (of_char c + (32 :: nat)) else c)"

text \<open>
  Modelled from the spec: \<^verbatim>\<open>ident.ParseMixedCaps\<close> (absent). A word ends at the last
  letter, at a lowercase letter that an uppercase letter follows ("transitions from
  lowercase to uppercase"), and at an uppercase letter that an uppercase and then a
  lowercase letter follow ("runs of uppercase followed by a lowercase continuation").
  \<open>word\<close> holds the letters of the current word read so far.
\<close>

fun ParseMixedCaps_from :: "string \<Rightarrow> string \<Rightarrow> string list" where
  "ParseMixedCaps_from word [] = (if word = [] then [] else [word])"
| "ParseMixedCaps_from word [c] = [word @ [c]]"
| "ParseMixedCaps_from word (c # d # cs) =
     (let eow = (isLower c \<and> isUpper d
                 \<or> isUpper c \<and> isUpper d \<and> (case cs of [] \<Rightarrow> False | e # _ \<Rightarrow> isLower e))
      in if eow then (word @ [c]) # ParseMixedCaps_from [] (d # cs)
         else ParseMixedCaps_from (word @ [c]) (d # cs))"

text \<open>Modelled from the spec: \<^verbatim>\<open>ident.ParseMixedCaps\<close> (absent), from the empty word.\<close>

definition ParseMixedCaps :: "string \<Rightarrow> string list" where
  "ParseMixedCaps name = ParseMixedCaps_from [] name"

text \<open>
  Modelled from the spec: uppercasing a letter, for the first letter of a word after the
  leading one; \<^verbatim>\<open>ident\<close> is absent.
\<close>

definition toUpper :: "char \<Rightarrow> char" where
  "toUpper c = (if isLower c then char_of (of_char c - (32 :: nat)) else c)"

text \<open>
  Modelled from the spec: a word after the leading one, in \<^verbatim>\<open>ToLowerCamelCase\<close> of
  \<^verbatim>\<open>ident\<close> (absent): its first letter uppercase and the others lowercase, so that
  \<open>UserID\<close> does not become \<open>userID\<close> ("\<open>UserID\<close> to \<open>userID\<close> is NOT produced").
\<close>

fun titleCase :: "string \<Rightarrow> string" where
  "titleCase [] = []"
| "titleCase (c # cs) = toUpper c # map toLower cs"

text \<open>
  Modelled from the spec: \<^verbatim>\<open>ToLowerCamelCase\<close> of \<^verbatim>\<open>ident\<close> (absent): "the leading word
  is lowercased"; the words after it are in title case. The spec's sentence on acronyms
  can also be read as keeping \<open>ID\<close> in a later word; the examples of this file have no
  acronym, and no theorem depends on the choice.
\<close>

fun ToLowerCamelCase :: "string list \<Rightarrow> string" where
  "ToLowerCamelCase [] = []"
| "ToLowerCamelCase (word # words) = map toLower word @ concat (map titleCase words)"

text \<open>
  Modelled from the spec: the composition \<^verbatim>\<open>ident.ParseMixedCaps(s).ToLowerCamelCase()\<close>
  that \<^verbatim>\<open>writeQuery\<close> calls; \<^verbatim>\<open>ident\<close> is absent.
\<close>

definition lowerCamelCase :: "string \<Rightarrow> string" where
  "lowerCamelCase name = ToLowerCamelCase (ParseMixedCaps name)"

section \<open>The buffer is only appended to\<close>

lemma writeArgumentType_append:
  "writeArgumentType (w @ u) t val = w @ writeArgumentType u t val"
  by (induction u t val rule: writeArgumentType.induct) (simp_all add: Let_def)

lemma writeArgumentType_buffer:
  "writeArgumentType w t val = w @ writeArgumentType [] t val"
  using writeArgumentType_append [of w "[]" t val] by simp

lemma writeQuery_append:
  "writeQuery lcc (w @ u) t inline = w @ writeQuery lcc u t inline"
  "writeQuery_loop lcc (w @ u) i fs = w @ writeQuery_loop lcc u i fs"
proof (induction lcc u t inline and lcc u i fs rule: writeQuery_writeQuery_loop.induct)
  case (3 lcc u name unm fs inline)
  show ?case
  proof (cases unm)
    case True
    then show ?thesis by simp
  next
    case False
    from 3 [OF False refl] False show ?thesis
      by (cases inline) (simp_all add: Let_def)
  qed
next
  case (7 lcc u i name t tag anonymous fs)
  define inl where "inl = (anonymous \<and> \<not> tag \<noteq> None)"
  define pre where "pre = (\<lambda>b. let x = (if i \<noteq> 0 then b @ '','' else b)
    in if \<not> inl then (case tag of Some v \<Rightarrow> x @ v | None \<Rightarrow> x @ lcc name) else x)"
  have unfold: "writeQuery_loop lcc b i (StructField name t tag anonymous # fs) =
      writeQuery_loop lcc (writeQuery lcc (pre b) t inl) (i + 1) fs" for b
    by (simp add: pre_def inl_def Let_def)
  have pre: "pre (w @ u) = w @ pre u"
    by (simp add: pre_def Let_def split: option.splits)
  have step: "writeQuery lcc (w @ pre u) t inl = w @ writeQuery lcc (pre u) t inl"
    unfolding pre_def inl_def Let_def by (rule 7(1) [OF refl refl refl refl])
  have rest: "writeQuery_loop lcc (w @ writeQuery lcc (pre u) t inl) (i + 1) fs =
      w @ writeQuery_loop lcc (writeQuery lcc (pre u) t inl) (i + 1) fs"
    unfolding pre_def inl_def Let_def by (rule 7(2) [OF refl refl refl refl refl])
  show ?case
    by (simp only: unfold pre step rest)
qed simp_all

lemma writeQuery_buffer:
  "writeQuery lcc w t inline = w @ writeQuery lcc [] t inline"
  using writeQuery_append(1) [of lcc w "[]" t inline] by simp

lemma writeQuery_loop_buffer:
  "writeQuery_loop lcc w i fs = w @ writeQuery_loop lcc [] i fs"
  using writeQuery_append(2) [of lcc w "[]" i fs] by simp

text \<open>One turn of the loop over the fields, with the \<^verbatim>\<open>let\<close>s resolved.\<close>

lemma writeQuery_loop_Cons:
  "writeQuery_loop lcc w i (StructField name t tag anonymous # fs) =
     writeQuery_loop lcc
       (writeQuery lcc
          (w @ (if i \<noteq> 0 then '','' else []) @
             (if anonymous \<and> tag = None then []
              else case tag of Some v \<Rightarrow> v | None \<Rightarrow> lcc name))
          t (anonymous \<and> tag = None))
       (Suc i) fs"
  by (simp add: Let_def split: option.splits)

lemma writeArgumentType_required:
  "Kind t \<noteq> Ptr \<Longrightarrow> writeArgumentType w t True = writeArgumentType w t False @ ''!''"
  by (cases t) (simp_all add: Let_def)

section \<open>The type-name resolver\<close>

text \<open>
  C3. The token of the pointer type \<open>*T\<close>, resolved as required, is the token of \<open>T\<close>
  resolved as not required: one pointer level is unwrapped and no \<open>!\<close> is added. For a
  \<open>T\<close> that is not itself a pointer, the token of \<open>T\<close> resolved as required is that same
  token followed by \<open>!\<close>, so it ends in \<open>!\<close> and the token of \<open>*T\<close> is the token of \<open>T\<close>
  without this last character.
\<close>

theorem writeArgumentType_optional:
  "writeArgumentType w (PtrTo t) True = writeArgumentType w t False \<and>
   (Kind t \<noteq> Ptr \<longrightarrow>
      writeArgumentType w t True = writeArgumentType w t False @ ''!'' \<and>
      writeArgumentType w t True = writeArgumentType w (PtrTo t) True @ ''!'' \<and>
      last (writeArgumentType w t True) = CHR ''!'')"
  by (simp add: writeArgumentType_required)

theorem writeArgumentType_optional_witness:
  "Kind (Basic ''Int'') \<noteq> Ptr \<and>
   writeArgumentType [] (PtrTo (Basic ''Int'')) True = ''Int'' \<and>
   writeArgumentType [] (Basic ''Int'') True = ''Int!''"
  using writeArgumentType_optional [of "[]" "Basic ''Int''"] by simp

text \<open>
  C4. A type of a kind other than pointer, slice and array whose name is \<open>string\<close>, Go's
  string primitive, resolves as required to \<open>ID!\<close>, not to \<open>String!\<close>; and so the loop of
  the argument compiler declares a variable \<open>k\<close> holding a string as \<open>$k:ID!\<close>.
\<close>

theorem writeArgumentType_string_is_ID:
  "writeArgumentType w (Basic ''string'') True = w @ ''ID!'' \<and>
   writeArgumentType w (Basic ''string'') True \<noteq> w @ ''String!'' \<and>
   (index_map vars k = Some (Basic ''string'') \<longrightarrow>
      queryArguments_loop vars buf (k # keys) =
        queryArguments_loop vars (buf @ ''$'' @ k @ '':ID!'') keys)"
  by (simp add: Let_def)

theorem writeArgumentType_string_is_ID_witness:
  "index_map [(''id'', Some (Basic ''string''))] ''id'' = Some (Basic ''string'') \<and>
   queryArguments [(''id'', Some (Basic ''string''))] = Inr ''$id:ID!''"
  using writeArgumentType_string_is_ID
    [of "[]" "[(''id'', Some (Basic ''string''))]" "''id''" "[]" "[]"]
  by (simp add: queryArguments_def index_map_def)

section \<open>The selection compiler: records\<close>

text \<open>
  C5. A record type that implements \<^verbatim>\<open>json.Unmarshaler\<close> is a scalar: whatever its
  fields, \<^verbatim>\<open>writeQuery\<close> writes nothing for it, and a field of that type adds only its
  separator and name token to its parent's selection. A record type that does not
  implement it, compiled with \<open>inline = false\<close>, is written as \<open>{\<close>, its fields, \<open>}\<close>.
  So a record compiled with \<open>inline = false\<close> is written as a braced sub-selection if and
  only if it does not implement \<^verbatim>\<open>json.Unmarshaler\<close>.
\<close>

theorem writeQuery_scalar_record:
  "writeQuery lcc w (StructOf name True fs) inline = w \<and>
   writeQuery lcc w (StructOf name False fs) False =
     w @ ''{'' @ writeQuery_loop lcc [] 0 fs @ ''}'' \<and>
   ((\<exists>body. writeQuery lcc w (StructOf name unm fs) False = w @ ''{'' @ body @ ''}'')
      \<longleftrightarrow> \<not> unm) \<and>
   writeQuery_loop lcc w i (StructField fname (StructOf name True fs) tag anonymous # rest) =
     writeQuery_loop lcc
       (w @ (if i \<noteq> 0 then '','' else []) @
          (if anonymous \<and> tag = None then []
           else case tag of Some v \<Rightarrow> v | None \<Rightarrow> lcc fname))
       (Suc i) rest"
proof -
  have braced: "writeQuery lcc w (StructOf name False fs) False =
      w @ ''{'' @ writeQuery_loop lcc [] 0 fs @ ''}''"
    using writeQuery_loop_buffer [of lcc "w @ ''{''" 0 fs] by (simp add: Let_def)
  have leaf: "writeQuery lcc b (StructOf name True fs) inl = b" for b inl
    by simp
  have iff: "(\<exists>body. writeQuery lcc w (StructOf name unm fs) False = w @ ''{'' @ body @ ''}'')
      \<longleftrightarrow> \<not> unm"
  proof (cases unm)
    case True
    then show ?thesis by simp
  next
    case False
    with braced show ?thesis by auto
  qed
  show ?thesis
    unfolding writeQuery_loop_Cons leaf
    using braced iff by simp
qed

theorem writeQuery_scalar_record_witness:
  "writeQuery lowerCamelCase []
     (StructOf ''DateTime'' True [StructField ''Unix'' (Basic ''int64'') None False]) False = [] \<and>
   writeQuery lowerCamelCase []
     (StructOf ''DateTime'' False [StructField ''Unix'' (Basic ''int64'') None False]) False
     = ''{unix}''"
proof -
  have unix: "lowerCamelCase ''Unix'' = ''unix''" by code_simp
  from writeQuery_scalar_record
    [of lowerCamelCase "[]" "''DateTime''" "[StructField ''Unix'' (Basic ''int64'') None False]"]
  show ?thesis by (simp add: unix)
qed




section \<open>The selection compiler: pointers, slices and arrays\<close>

text \<open>
  C8. For a pointer and for a slice \<^verbatim>\<open>writeQuery\<close> writes what it writes for the
  element type with \<open>inline = false\<close>, and nothing for the wrapper. For an array it
  writes nothing at all: the element type is not visited, where
  \<^verbatim>\<open>writeArgumentType\<close> treats slices and arrays alike. A field \<open>Items\<close> of type array
  of a record with a field \<open>A\<close> compiles to \<open>{items}\<close>, and to \<open>{items{a}}\<close> when the
  array is a slice.
\<close>

theorem writeQuery_array_not_unwrapped:
  "writeQuery lcc w (PtrTo t) inline = writeQuery lcc w t False \<and>
   writeQuery lcc w (SliceOf t) inline = writeQuery lcc w t False \<and>
   writeQuery lcc w (ArrayOf n t) inline = w \<and>
   writeQuery lowerCamelCase []
     (StructOf ''Item'' False [StructField ''A'' (Basic ''Int'') None False]) False = ''{a}'' \<and>
   writeQuery lowerCamelCase []
     (ArrayOf 2 (StructOf ''Item'' False [StructField ''A'' (Basic ''Int'') None False])) False
     = [] \<and>
   writeQuery lowerCamelCase []
     (StructOf [] False
        [StructField ''Items''
           (ArrayOf 2 (StructOf ''Item'' False [StructField ''A'' (Basic ''Int'') None False]))
           None False]) False
     = ''{items}'' \<and>
   writeQuery lowerCamelCase []
     (StructOf [] False
        [StructField ''Items''
           (SliceOf (StructOf ''Item'' False [StructField ''A'' (Basic ''Int'') None False]))
           None False]) False
     = ''{items{a}}''"
proof -
  have a: "lowerCamelCase ''A'' = ''a''" by code_simp
  have items: "lowerCamelCase ''Items'' = ''items''" by code_simp
  show ?thesis by (simp add: a items)
qed

section \<open>The argument compiler: order and determinism\<close>

lemma queryArguments_loop_returns:
  "\<forall>k \<in> set keys. index_map vars k \<noteq> None \<Longrightarrow>
   queryArguments_loop vars buf keys = Inr (buf @ concat (map (variable_declaration vars) keys))"
proof (induction keys arbitrary: buf)
  case Nil
  then show ?case by simp
next
  case (Cons k keys)
  from Cons.prems obtain t where t: "index_map vars k = Some t" by auto
  from Cons.prems have "\<forall>k \<in> set keys. index_map vars k \<noteq> None" by simp
  from Cons.IH [OF this] t show ?case
    using writeArgumentType_buffer [of "buf @ ''$'' @ k @ '':''" t True]
    by (simp add: Let_def variable_declaration_def)
qed

lemma queryArguments_loop_panics:
  "\<exists>k \<in> set keys. index_map vars k = None \<Longrightarrow>
   queryArguments_loop vars buf keys = Inl NilPointerDereference"
proof (induction keys arbitrary: buf)
  case Nil
  then show ?case by simp
next
  case (Cons k keys)
  show ?case
  proof (cases "index_map vars k")
    case None
    then show ?thesis by (simp add: Let_def)
  next
    case (Some t)
    with Cons.prems have "\<exists>k \<in> set keys. index_map vars k = None" by auto
    from Cons.IH [OF this] Some show ?thesis by (simp add: Let_def)
  qed
qed

lemma queryArguments_loop_cong:
  "index_map vars = index_map vars' \<Longrightarrow>
   queryArguments_loop vars buf keys = queryArguments_loop vars' buf keys"
  by (induction keys arbitrary: buf) (simp_all add: Let_def split: option.splits)

lemma index_map_entry:
  "distinct_keys vars \<Longrightarrow> (k, v) \<in> set vars \<Longrightarrow> index_map vars k = v"
  by (simp add: distinct_keys_def index_map_def)

lemma sort_keys:
  "distinct_keys vars \<Longrightarrow> sort (map fst vars) = sorted_list_of_set (fst ` set vars)"
  using sorted_list_of_set_sort_remdups [of "map fst vars"]
  by (simp add: distinct_keys_def distinct_remdups_id)

text \<open>The argument compiler returns when no value is nil.\<close>

lemma queryArguments_returns:
  assumes "distinct_keys vars" and "\<forall>(k, v) \<in> set vars. v \<noteq> None"
  shows "\<exists>args. queryArguments vars = Inr args"
proof -
  have "\<forall>k \<in> set (sort (map fst vars)). index_map vars k \<noteq> None"
  proof
    fix k assume "k \<in> set (sort (map fst vars))"
    then obtain v where kv: "(k, v) \<in> set vars" by auto
    with assms(2) have "v \<noteq> None" by auto
    with index_map_entry [OF assms(1) kv] show "index_map vars k \<noteq> None" by simp
  qed
  from queryArguments_loop_returns [OF this] show ?thesis
    by (simp add: queryArguments_def)
qed

text \<open>
  C2. Take two enumerations \<open>vars\<close> and \<open>vars'\<close> of maps (distinct keys) that hold the same
  bindings. The argument compiler returns the same on both, whatever the two orders of
  enumeration. Its loop runs over \<open>sorted_list_of_set\<close> of the names, the list of the
  names in strictly ascending lexicographic order of their bytes: when no value
  is nil the result is the concatenation, in that order and with nothing in between, of
  the declarations of the variables; when some value is nil the call panics.
\<close>

theorem queryArguments_sorted_deterministic:
  assumes "distinct_keys vars" and "distinct_keys vars'" and "set vars = set vars'"
  shows "queryArguments vars = queryArguments vars' \<and>
         queryArguments vars =
           queryArguments_loop vars [] (sorted_list_of_set (fst ` set vars)) \<and>
         ((\<forall>(k, v) \<in> set vars. v \<noteq> None) \<longrightarrow>
            queryArguments vars =
              Inr (concat (map (variable_declaration vars) (sorted_list_of_set (fst ` set vars))))) \<and>
         ((\<exists>k. (k, None) \<in> set vars) \<longrightarrow> queryArguments vars = Inl NilPointerDereference) \<and>
         sorted_wrt (<) (sorted_list_of_set (fst ` set vars)) \<and>
         set (sorted_list_of_set (fst ` set vars)) = fst ` set vars"
proof -
  have ascending: "sorted_wrt (<) (sorted_list_of_set (fst ` set vars))"
    by (rule strict_sorted_list_of_set)
  have names: "set (sorted_list_of_set (fst ` set vars)) = fst ` set vars"
    by simp
  have keys: "queryArguments vars =
      queryArguments_loop vars [] (sorted_list_of_set (fst ` set vars))"
    using assms(1) by (simp add: queryArguments_def sort_keys)
  have keys': "queryArguments vars' =
      queryArguments_loop vars' [] (sorted_list_of_set (fst ` set vars'))"
    using assms(2) by (simp add: queryArguments_def sort_keys)
  have "map_of vars = map_of vars'"
    using assms by (simp add: distinct_keys_def map_of_inject_set)
  then have index: "index_map vars = index_map vars'"
    by (simp add: index_map_def fun_eq_iff)
  have same: "queryArguments vars = queryArguments vars'"
  proof -
    note keys
    also have "queryArguments_loop vars [] (sorted_list_of_set (fst ` set vars)) =
        queryArguments_loop vars' [] (sorted_list_of_set (fst ` set vars))"
      by (rule queryArguments_loop_cong [OF index])
    also have "\<dots> = queryArguments vars'"
      by (simp only: keys' assms(3))
    finally show ?thesis .
  qed
  have returns: "queryArguments vars =
      Inr (concat (map (variable_declaration vars) (sorted_list_of_set (fst ` set vars))))"
    if "\<forall>(k, v) \<in> set vars. v \<noteq> None"
  proof -
    have "\<forall>k \<in> set (sorted_list_of_set (fst ` set vars)). index_map vars k \<noteq> None"
    proof
      fix k assume "k \<in> set (sorted_list_of_set (fst ` set vars))"
      then obtain v where kv: "(k, v) \<in> set vars" by auto
      with that have "v \<noteq> None" by auto
      with index_map_entry [OF assms(1) kv] show "index_map vars k \<noteq> None" by simp
    qed
    from queryArguments_loop_returns [OF this] keys show ?thesis by simp
  qed
  have panics: "queryArguments vars = Inl NilPointerDereference"
    if "\<exists>k. (k, None) \<in> set vars"
  proof -
    from that obtain k where k: "(k, None) \<in> set vars" by blast
    then have "index_map vars k = None" using index_map_entry [OF assms(1)] by simp
    moreover from k have "k \<in> set (sorted_list_of_set (fst ` set vars))" by force
    ultimately have "\<exists>k \<in> set (sorted_list_of_set (fst ` set vars)). index_map vars k = None"
      by blast
    from queryArguments_loop_panics [OF this] keys show ?thesis by simp
  qed
  from keys same returns panics ascending names show ?thesis by blast
qed

theorem queryArguments_sorted_deterministic_witness:
  "distinct_keys [(''b'', Some (PtrTo (Basic ''Boolean''))), (''a'', Some (Basic ''Int''))] \<and>
   distinct_keys [(''a'', Some (Basic ''Int'')), (''b'', Some (PtrTo (Basic ''Boolean'')))] \<and>
   set [(''b'', Some (PtrTo (Basic ''Boolean''))), (''a'', Some (Basic ''Int''))] =
     set [(''a'', Some (Basic ''Int'')), (''b'', Some (PtrTo (Basic ''Boolean'')))] \<and>
   queryArguments [(''b'', Some (PtrTo (Basic ''Boolean''))), (''a'', Some (Basic ''Int''))] =
     queryArguments [(''a'', Some (Basic ''Int'')), (''b'', Some (PtrTo (Basic ''Boolean'')))] \<and>
   queryArguments [(''b'', Some (PtrTo (Basic ''Boolean''))), (''a'', Some (Basic ''Int''))] =
     Inr ''$a:Int!$b:Boolean''"
proof -
  let ?ba = "[(''b'', Some (PtrTo (Basic ''Boolean''))), (''a'', Some (Basic ''Int''))]"
  let ?ab = "[(''a'', Some (Basic ''Int'')), (''b'', Some (PtrTo (Basic ''Boolean'')))]"
  have d1: "distinct_keys ?ba" by (simp add: distinct_keys_def)
  have d2: "distinct_keys ?ab" by (simp add: distinct_keys_def)
  have s: "set ?ba = set ?ab" by auto
  have v: "queryArguments ?ab = Inr ''$a:Int!$b:Boolean''"
    by (simp add: queryArguments_def index_map_def)
  from queryArguments_sorted_deterministic [OF d1 d2 s]
  have e: "queryArguments ?ba = queryArguments ?ab" by (rule conjunct1)
  from e d1 d2 s v show ?thesis
    by (simp only: simp_thms)
qed

section \<open>Termination\<close>

text \<open>
  On a type of the table that unfolds into the tree \<open>t\<close>, the counted functions return
  what the functions on the tree return, as soon as the depth exceeds the size of \<open>t\<close>.
\<close>

lemma writeArgumentType_run_unfolds:
  "unfolds types i t \<Longrightarrow> size t < m \<Longrightarrow>
     writeArgumentType_run m types w i val = Some (writeArgumentType w t val)"
  "unfolds_fields types gfs fs \<Longrightarrow> True"
proof (induction arbitrary: m w val rule: unfolds_unfolds_fields.inducts)
  case (unfolds_Ptr types i e t)
  then show ?case by (cases m) simp_all
next
  case (unfolds_Slice types i e t)
  then show ?case by (cases m) (simp_all add: Let_def)
next
  case (unfolds_Array types i n e t)
  then show ?case by (cases m) (simp_all add: Let_def)
next
  case (unfolds_Struct types i name unm gfs fs)
  then show ?case by (cases m) (simp_all add: Let_def)
next
  case (unfolds_Basic types i name)
  then show ?case by (cases m) (simp_all add: Let_def)
qed simp_all

lemma writeQuery_run_unfolds:
  "unfolds types i t \<Longrightarrow> size t < m \<Longrightarrow>
     writeQuery_run m lcc types w i inline = Some (writeQuery lcc w t inline)"
  "unfolds_fields types gfs fs \<Longrightarrow> size_list size fs < m \<Longrightarrow>
     writeQuery_loop_run m lcc types w k gfs = Some (writeQuery_loop lcc w k fs)"
proof (induction arbitrary: m w inline and m w k rule: unfolds_unfolds_fields.inducts)
  case (unfolds_Ptr types i e t)
  then show ?case by (cases m) simp_all
next
  case (unfolds_Slice types i e t)
  then show ?case by (cases m) simp_all
next
  case (unfolds_Array types i n e t)
  then show ?case by (cases m) simp_all
next
  case (unfolds_Struct types i name unm gfs fs)
  then show ?case by (cases m) (simp_all add: Let_def)
next
  case (unfolds_Basic types i name)
  then show ?case by (cases m) simp_all
next
  case (unfolds_Nil types)
  then show ?case by (cases m) simp_all
next
  case (unfolds_Cons types e t gfs fs name tag anonymous)
  then show ?case by (cases m) (simp_all add: Let_def)
qed

text \<open>
  The hypothesis is needed. On a type that refers to itself the source recurses without
  end: the counted functions return at no depth.
\<close>

lemma self_reference_never_returns:
  "types i = GSlice i \<Longrightarrow> writeArgumentType_run m types w i val = None"
  "types i = GPtr i \<Longrightarrow> writeQuery_run m lcc types w i inline = None"
  by (induction m arbitrary: w val inline) simp_all

lemma recursive_record_never_returns:
  assumes "types i = GStruct name False (GField fname e tag anonymous # gfs)"
    and "types e = GPtr i"
  shows "writeQuery_run m lcc types w i inline = None"
proof (induction m arbitrary: w inline rule: less_induct)
  case (less m)
  show ?case
  proof (cases m)
    case 0
    then show ?thesis by simp
  next
    case m1: (Suc m1)
    show ?thesis
    proof (cases m1)
      case 0
      with m1 assms show ?thesis by (simp add: Let_def)
    next
      case m2: (Suc m2)
      show ?thesis
      proof (cases m2)
        case 0
        with m1 m2 assms show ?thesis by (simp add: Let_def)
      next
        case m3: (Suc m3)
        have "m3 < m" using m1 m2 m3 by simp
        from less [OF this] m1 m2 m3 assms show ?thesis by (simp add: Let_def)
      qed
    qed
  qed
qed

text \<open>Nesting of any depth, on the tree.\<close>

lemma writeArgumentType_pointers:
  "writeArgumentType w ((PtrTo ^^ Suc k) t) val = writeArgumentType w t False"
  by (induction k arbitrary: val) simp_all

lemma writeArgumentType_lists:
  "writeArgumentType w ((SliceOf ^^ k) t) True =
     w @ replicate k CHR ''['' @ writeArgumentType [] t True @ concat (replicate k '']!'')"
proof (induction k arbitrary: w)
  case 0
  show ?case using writeArgumentType_buffer [of w t True] by simp
next
  case (Suc k)
  have "concat (replicate k '']!'') @ '']!'' = '']!'' @ concat (replicate k '']!'')"
    by (induction k) simp_all
  with Suc [of "w @ ''[''"] show ?case by (simp add: Let_def)
qed

lemma writeQuery_wrappers:
  "writeQuery lcc w ((PtrTo ^^ Suc k) t) inline = writeQuery lcc w t False"
  "writeQuery lcc w ((SliceOf ^^ Suc k) t) inline = writeQuery lcc w t False"
  by (induction k arbitrary: inline) simp_all

text \<open>
  C9. A finite type description is a type \<open>i\<close> of the table that unfolds into a tree
  \<open>t\<close>, of any depth of pointers and lists. On it \<^verbatim>\<open>writeArgumentType\<close> and
  \<^verbatim>\<open>writeQuery\<close> return, within a depth of calls bounded by the size of \<open>t\<close>, and they
  return what the structural recursion on \<open>t\<close> gives. That recursion resolves the
  nesting in one pass from left to right: it only appends to the buffer; \<open>k + 1\<close>
  pointers around \<open>t\<close> resolve to the optional token of \<open>t\<close>; \<open>k\<close> lists around \<open>t\<close>
  resolve to \<open>k\<close> opening brackets, the required token of \<open>t\<close> and \<open>k\<close> times \<open>]!\<close>;
  and the selection of \<open>t\<close> behind any number of pointers, or of slices, is the
  selection of \<open>t\<close> with \<open>inline = false\<close>.
\<close>

theorem compilers_terminate:
  assumes "unfolds types i t"
  shows "(\<forall>m. size t < m \<longrightarrow>
            writeArgumentType_run m types w i val = Some (writeArgumentType w t val)) \<and>
         (\<forall>m. size t < m \<longrightarrow>
            writeQuery_run m lcc types w i inline = Some (writeQuery lcc w t inline)) \<and>
         writeArgumentType w t val = w @ writeArgumentType [] t val \<and>
         writeQuery lcc w t inline = w @ writeQuery lcc [] t inline \<and>
         writeArgumentType w ((PtrTo ^^ Suc k) t) val = writeArgumentType w t False \<and>
         writeArgumentType w ((SliceOf ^^ k) t) True =
           w @ replicate k CHR ''['' @ writeArgumentType [] t True @
             concat (replicate k '']!'') \<and>
         writeQuery lcc w ((PtrTo ^^ Suc k) t) inline = writeQuery lcc w t False \<and>
         writeQuery lcc w ((SliceOf ^^ Suc k) t) inline = writeQuery lcc w t False"
proof -
  have token: "\<forall>m. size t < m \<longrightarrow>
      writeArgumentType_run m types w i val = Some (writeArgumentType w t val)"
    using writeArgumentType_run_unfolds(1) [OF assms] by blast
  have selection: "\<forall>m. size t < m \<longrightarrow>
      writeQuery_run m lcc types w i inline = Some (writeQuery lcc w t inline)"
    using writeQuery_run_unfolds(1) [OF assms] by blast
  note parts = token selection
    writeArgumentType_buffer [of w t val] writeQuery_buffer [of lcc w t inline]
    writeArgumentType_pointers [of w k t val] writeArgumentType_lists [of w k t]
    writeQuery_wrappers [of lcc w k t inline]
  show ?thesis
    by (intro conjI) (rule parts)+
qed

theorem compilers_terminate_witness:
  "unfolds
     (\<lambda>i. if i = 0 then GPtr 1
          else if i = 1 then GSlice 2
          else if i = 2 then GStruct ''Item'' False [GField ''Name'' 3 (Some ''name'') False]
          else GBasic ''String'')
     0
     (PtrTo (SliceOf (StructOf ''Item'' False
        [StructField ''Name'' (Basic ''String'') (Some ''name'') False]))) \<and>
   writeArgumentType_run 9
     (\<lambda>i. if i = 0 then GPtr 1
          else if i = 1 then GSlice 2
          else if i = 2 then GStruct ''Item'' False [GField ''Name'' 3 (Some ''name'') False]
          else GBasic ''String'')
     [] 0 True = Some ''[Item!]'' \<and>
   writeQuery_run 9 lowerCamelCase
     (\<lambda>i. if i = 0 then GPtr 1
          else if i = 1 then GSlice 2
          else if i = 2 then GStruct ''Item'' False [GField ''Name'' 3 (Some ''name'') False]
          else GBasic ''String'')
     [] 0 False = Some ''{name}''"
proof -
  let ?types = "\<lambda>i::nat. if i = 0 then GPtr 1
          else if i = 1 then GSlice 2
          else if i = 2 then GStruct ''Item'' False [GField ''Name'' 3 (Some ''name'') False]
          else GBasic ''String''"
  let ?item = "StructOf ''Item'' False
        [StructField ''Name'' (Basic ''String'') (Some ''name'') False]"
  have string: "unfolds ?types 3 (Basic ''String'')"
    by (rule unfolds_Basic) simp
  have fields: "unfolds_fields ?types [GField ''Name'' 3 (Some ''name'') False]
      [StructField ''Name'' (Basic ''String'') (Some ''name'') False]"
    by (rule unfolds_Cons [OF string unfolds_Nil])
  have item: "unfolds ?types 2 ?item"
    by (rule unfolds_Struct [OF _ fields]) simp
  have list: "unfolds ?types 1 (SliceOf ?item)"
    by (rule unfolds_Slice [OF _ item]) simp
  have finite: "unfolds ?types 0 (PtrTo (SliceOf ?item))"
    by (rule unfolds_Ptr [OF _ list]) simp
  have depth: "size (PtrTo (SliceOf ?item)) < 9"
    by simp
  note returns = compilers_terminate [OF finite, of "[]" True lowerCamelCase False 0]
  from returns [THEN conjunct1, rule_format, OF depth]
  have token: "writeArgumentType_run 9 ?types [] 0 True = Some ''[Item!]''"
    by (simp add: Let_def)
  from returns [THEN conjunct2, THEN conjunct1, rule_format, OF depth]
  have selection: "writeQuery_run 9 lowerCamelCase ?types [] 0 False = Some ''{name}''"
    by (simp add: Let_def)
  from finite token selection show ?thesis by (simp only: simp_thms)
qed

section \<open>Operation documents\<close>

lemma query_returns: "query lcc (Some t) = Inr (writeQuery lcc [] t False)"
  by (simp add: query_def)

text \<open>
  C1. The query with the empty name, the variables \<open>a\<close>, an \<open>Int\<close>, and \<open>b\<close>, a pointer
  to a \<open>Boolean\<close>, in either order of enumeration, and the data shape
  \<open>struct{Foo Int; BarBaz *Boolean}\<close> compiles to
  \<open>query($a:Int!$b:Boolean){foo,barBaz}\<close>, for every naming normalizer that maps \<open>Foo\<close>
  to \<open>foo\<close> and \<open>BarBaz\<close> to \<open>barBaz\<close>, as the one of the spec does.
\<close>

theorem Query_example:
  assumes "lcc ''Foo'' = ''foo''" and "lcc ''BarBaz'' = ''barBaz''"
  shows "Query_Query lcc
           \<lparr>Query.Name = [],
            Data = Some (StructOf [] False
                     [StructField ''Foo'' (Basic ''Int'') None False,
                      StructField ''BarBaz'' (PtrTo (Basic ''Boolean'')) None False]),
            Vars = [(''a'', Some (Basic ''Int'')), (''b'', Some (PtrTo (Basic ''Boolean'')))]\<rparr>
         = Inr ''query($a:Int!$b:Boolean){foo,barBaz}'' \<and>
         Query_Query lcc
           \<lparr>Query.Name = [],
            Data = Some (StructOf [] False
                     [StructField ''Foo'' (Basic ''Int'') None False,
                      StructField ''BarBaz'' (PtrTo (Basic ''Boolean'')) None False]),
            Vars = [(''b'', Some (PtrTo (Basic ''Boolean''))), (''a'', Some (Basic ''Int''))]\<rparr>
         = Inr ''query($a:Int!$b:Boolean){foo,barBaz}''"
  using assms
  by (simp add: Query_Query_def queryArguments_def query_def index_map_def Let_def)

theorem Query_example_witness:
  "lowerCamelCase ''Foo'' = ''foo'' \<and> lowerCamelCase ''BarBaz'' = ''barBaz'' \<and>
   Query_Query lowerCamelCase
     \<lparr>Query.Name = [],
      Data = Some (StructOf [] False
               [StructField ''Foo'' (Basic ''Int'') None False,
                StructField ''BarBaz'' (PtrTo (Basic ''Boolean'')) None False]),
      Vars = [(''b'', Some (PtrTo (Basic ''Boolean''))), (''a'', Some (Basic ''Int''))]\<rparr>
   = Inr ''query($a:Int!$b:Boolean){foo,barBaz}''"
proof -
  have foo: "lowerCamelCase ''Foo'' = ''foo''" by code_simp
  have barBaz: "lowerCamelCase ''BarBaz'' = ''barBaz''" by code_simp
  from Query_example [OF foo barBaz] foo barBaz show ?thesis
    by (simp only: simp_thms)
qed

text \<open>
  C7, as the claim states it, fails: a query with no name and no variables is the bare
  selection, without the keyword \<open>query\<close>. The field of the data shape carries the tag
  \<open>viewer\<close>, so the document does not depend on the naming normalizer.
\<close>

theorem Query_without_keyword:
  "Query_Query lowerCamelCase
     \<lparr>Query.Name = [],
      Data = Some (StructOf [] False
               [StructField ''Viewer'' (Basic ''String'') (Some ''viewer'') False]),
      Vars = []\<rparr> = Inr ''{viewer}'' \<and>
   Query_Query lowerCamelCase
     \<lparr>Query.Name = [],
      Data = Some (StructOf [] False
               [StructField ''Viewer'' (Basic ''String'') (Some ''viewer'') False]),
      Vars = []\<rparr> \<noteq> Inr ''query{viewer}''"
  by (simp add: Query_Query_def query_def)

text \<open>
  C7, amended. When the argument compiler returns \<open>args\<close> and the selection compiler
  returns \<open>sel\<close>, the document of a query is: \<open>query\<close>, a space and the name when the
  name is not empty, \<open>query\<close> alone when the name is empty and there are variables,
  and nothing when there is neither; then \<open>(args)\<close> when there are variables; then
  \<open>sel\<close>. The document of a mutation is \<open>mutation\<close>, then a space and the name when the
  name is not empty, then \<open>(args)\<close> when there are variables, then \<open>sel\<close>: its keyword
  is always there.
\<close>

theorem operation_documents:
  "(queryArguments (Query.Vars q) = Inr args \<and> query lcc (Query.Data q) = Inr sel \<longrightarrow>
      Query_Query lcc q =
        Inr ((if Query.Name q \<noteq> [] then ''query '' @ Query.Name q
              else if Query.Vars q \<noteq> [] then ''query'' else []) @
             (if Query.Vars q \<noteq> [] then ''('' @ args @ '')'' else []) @
             sel)) \<and>
   (queryArguments (Mutation.Vars m) = Inr args' \<and> query lcc (Mutation.Data m) = Inr sel' \<longrightarrow>
      Mutation_Query lcc m =
        Inr (''mutation'' @
             (if Mutation.Name m \<noteq> [] then '' '' @ Mutation.Name m else []) @
             (if Mutation.Vars m \<noteq> [] then ''('' @ args' @ '')'' else []) @
             sel'))"
  by (simp add: Query_Query_def Mutation_Query_def Let_def)

theorem operation_documents_witness:
  "queryArguments [(''a'', Some (Basic ''Int''))] = Inr ''$a:Int!'' \<and>
   query lowerCamelCase (Some (StructOf [] False [StructField ''Foo'' (Basic ''Int'') None False]))
     = Inr ''{foo}'' \<and>
   Query_Query lowerCamelCase
     \<lparr>Query.Name = ''Hero'',
      Data = Some (StructOf [] False [StructField ''Foo'' (Basic ''Int'') None False]),
      Vars = [(''a'', Some (Basic ''Int''))]\<rparr> = Inr ''query Hero($a:Int!){foo}'' \<and>
   queryArguments [] = Inr [] \<and>
   Mutation_Query lowerCamelCase
     \<lparr>Mutation.Name = [],
      Data = Some (StructOf [] False [StructField ''Foo'' (Basic ''Int'') None False]),
      Vars = []\<rparr> = Inr ''mutation{foo}''"
proof -
  let ?data = "Some (StructOf [] False [StructField ''Foo'' (Basic ''Int'') None False])"
  let ?q = "\<lparr>Query.Name = ''Hero'', Data = ?data, Vars = [(''a'', Some (Basic ''Int''))]\<rparr>"
  let ?m = "\<lparr>Mutation.Name = [], Data = ?data, Vars = []\<rparr>"
  have foo: "lowerCamelCase ''Foo'' = ''foo''" by code_simp
  have args: "queryArguments (Query.Vars ?q) = Inr ''$a:Int!''"
    by (simp add: queryArguments_def index_map_def)
  have sel: "query lowerCamelCase (Query.Data ?q) = Inr ''{foo}''"
    by (simp add: query_def foo)
  have args': "queryArguments (Mutation.Vars ?m) = Inr []"
    by (simp add: queryArguments_def)
  have sel': "query lowerCamelCase (Mutation.Data ?m) = Inr ''{foo}''"
    by (simp add: query_def foo)
  note both = operation_documents
    [of ?q "''$a:Int!''" lowerCamelCase "''{foo}''" ?m "[]" "''{foo}''"]
  from both [THEN conjunct1, rule_format, OF conjI [OF args sel]]
  have q: "Query_Query lowerCamelCase ?q = Inr ''query Hero($a:Int!){foo}''" by simp
  from both [THEN conjunct2, rule_format, OF conjI [OF args' sel']]
  have m: "Mutation_Query lowerCamelCase ?m = Inr ''mutation{foo}''" by simp
  from args sel q args' m show ?thesis by simp
qed

section \<open>The two variants\<close>

text \<open>
  C10. With the same naming normalizer, \<^verbatim>\<open>constructQuery(v, vars)\<close> of \<^verbatim>\<open>query.go\<close>
  returns what \<^verbatim>\<open>Query{Name: "", Data: v, Vars: vars}.Query()\<close> of the variant with
  names returns, and \<^verbatim>\<open>constructMutation(v, vars)\<close> what
  \<^verbatim>\<open>Mutation{Name: "", Data: v, Vars: vars}.Query()\<close> returns; when one panics so does
  the other.
\<close>

theorem construct_agrees_with_unnamed:
  "constructQuery lcc v vars = Query_Query lcc \<lparr>Query.Name = [], Data = v, Vars = vars\<rparr> \<and>
   constructMutation lcc v vars =
     Mutation_Query lcc \<lparr>Mutation.Name = [], Data = v, Vars = vars\<rparr>"
proof -
  have one: "(x = y) = True" for x y :: panic
    by (cases x, cases y) simp
  show ?thesis
  proof (cases "query lcc v")
    case (Inl e)
    then show ?thesis
      by (cases "queryArguments vars")
         (simp_all add: constructQuery_def constructMutation_def Query_Query_def
            Mutation_Query_def Let_def one)
  next
    case (Inr sel)
    then show ?thesis
      by (cases "queryArguments vars")
         (simp_all add: constructQuery_def constructMutation_def Query_Query_def
            Mutation_Query_def Let_def)
  qed
qed

end
